theory Spec2Isabelle
  imports Complex_Main "HOL-Library.AList"
begin

section \<open>JSON values and the JavaScript operations the server applies to them\<close>

text \<open>
  The server keeps one JSON document and receives JSON request bodies. A value is what
  \<^verbatim>\<open>JSON.parse\<close> yields; a number is modelled by its value. An object is its list of
  own properties, read only through lookups, so the order of its keys carries no meaning.
  Strings are byte strings (UTF-8), which keeps equality and emptiness of the source's strings.
  A JavaScript expression that may be \<^verbatim>\<open>undefined\<close> is a \<open>jval option\<close> with \<open>None\<close> for
  \<^verbatim>\<open>undefined\<close>.
\<close>

datatype jval =
    JNull
  | JBool bool
  | JNum rat
  | JStr string
  | JArr "jval list"
  | JObj "(string \<times> jval) list"

datatype js_error = TypeError | SyntaxError | IOError

text \<open>Truthiness, as tested by \<^verbatim>\<open>!x\<close> and \<^verbatim>\<open>if (x)\<close>.\<close>

fun truthy :: "jval option \<Rightarrow> bool" where
  "truthy None = False"
| "truthy (Some JNull) = False"
| "truthy (Some (JBool b)) = b"
| "truthy (Some (JNum n)) = (n \<noteq> 0)"
| "truthy (Some (JStr s)) = (s \<noteq> [])"
| "truthy (Some (JArr xs)) = True"
| "truthy (Some (JObj kvs)) = True"

text \<open>
  Strict equality \<^verbatim>\<open>===\<close> between a value of the stored document and a value of the
  request. Primitives compare by value. Arrays and objects compare by reference, and the two
  sides always come from two different parses, so they are never equal.
\<close>

fun strict_eq :: "jval option \<Rightarrow> jval option \<Rightarrow> bool" where
  "strict_eq None None = True"
| "strict_eq (Some JNull) (Some JNull) = True"
| "strict_eq (Some (JBool a)) (Some (JBool b)) = (a = b)"
| "strict_eq (Some (JNum a)) (Some (JNum b)) = (a = b)"
| "strict_eq (Some (JStr a)) (Some (JStr b)) = (a = b)"
| "strict_eq _ _ = False"

fun primitive :: "jval option \<Rightarrow> bool" where
  "primitive (Some (JArr xs)) = False"
| "primitive (Some (JObj kvs)) = False"
| "primitive _ = True"

text \<open>
  Reading a property \<^verbatim>\<open>v.k\<close> for the keys the server uses (\<^verbatim>\<open>id\<close>, \<^verbatim>\<open>phone\<close>,
  \<^verbatim>\<open>password\<close>, \<^verbatim>\<open>name\<close>, \<^verbatim>\<open>userId\<close>), none of which is a built-in property:
  \<^verbatim>\<open>null\<close> throws, an object answers from its own properties, everything else has no such
  property.
\<close>

fun get_prop :: "jval \<Rightarrow> string \<Rightarrow> js_error + jval option" where
  "get_prop JNull k = Inl TypeError"
| "get_prop (JObj kvs) k = Inr (map_of kvs k)"
| "get_prop v k = Inr None"

text \<open>The callback \<^verbatim>\<open>x => x.k === v\<close>.\<close>

definition prop_is :: "string \<Rightarrow> jval option \<Rightarrow> jval \<Rightarrow> js_error + bool" where
  "prop_is k v x = (case get_prop x k of Inl e \<Rightarrow> Inl e | Inr w \<Rightarrow> Inr (strict_eq w v))"

text \<open>The callback \<^verbatim>\<open>x => x.k !== v\<close>.\<close>

definition prop_is_not :: "string \<Rightarrow> jval option \<Rightarrow> jval \<Rightarrow> js_error + bool" where
  "prop_is_not k v x = (case get_prop x k of Inl e \<Rightarrow> Inl e | Inr w \<Rightarrow> Inr (\<not> strict_eq w v))"

text \<open>
  The receiver of \<^verbatim>\<open>.find\<close>, \<^verbatim>\<open>.findIndex\<close>, \<^verbatim>\<open>.filter\<close> and \<^verbatim>\<open>.push\<close>: on anything
  but an array the method is missing and the call throws.
\<close>

fun as_array :: "jval option \<Rightarrow> js_error + jval list" where
  "as_array (Some (JArr xs)) = Inr xs"
| "as_array v = Inl TypeError"

text \<open>\<^verbatim>\<open>Array.prototype.find\<close>, \<^verbatim>\<open>findIndex\<close> and \<^verbatim>\<open>filter\<close> with a callback that may throw.\<close>

fun find_js :: "(jval \<Rightarrow> js_error + bool) \<Rightarrow> jval list \<Rightarrow> js_error + jval option" where
  "find_js p [] = Inr None"
| "find_js p (x # xs) =
     (case p x of
        Inl e \<Rightarrow> Inl e
      | Inr True \<Rightarrow> Inr (Some x)
      | Inr False \<Rightarrow> find_js p xs)"

text \<open>\<open>None\<close> stands for the index \<^verbatim>\<open>-1\<close>.\<close>

fun findIndex_js :: "(jval \<Rightarrow> js_error + bool) \<Rightarrow> jval list \<Rightarrow> js_error + nat option" where
  "findIndex_js p [] = Inr None"
| "findIndex_js p (x # xs) =
     (case p x of
        Inl e \<Rightarrow> Inl e
      | Inr True \<Rightarrow> Inr (Some 0)
      | Inr False \<Rightarrow>
          (case findIndex_js p xs of
             Inl e \<Rightarrow> Inl e
           | Inr None \<Rightarrow> Inr None
           | Inr (Some i) \<Rightarrow> Inr (Some (Suc i))))"

fun filter_js :: "(jval \<Rightarrow> js_error + bool) \<Rightarrow> jval list \<Rightarrow> js_error + jval list" where
  "filter_js p [] = Inr []"
| "filter_js p (x # xs) =
     (case p x of
        Inl e \<Rightarrow> Inl e
      | Inr keep \<Rightarrow>
          (case filter_js p xs of
             Inl e \<Rightarrow> Inl e
           | Inr ys \<Rightarrow> Inr (if keep then x # ys else ys)))"

text \<open>
  The own properties an object spread or a rest pattern copies. An array spreads to nothing
  the server looks at; no path reaches a spread of anything but an object, since the value
  has passed a test on one of its properties before.
\<close>

fun own_props :: "jval \<Rightarrow> (string \<times> jval) list" where
  "own_props (JObj kvs) = kvs"
| "own_props v = []"

text \<open>
  Setting a property in an object literal. A property set to \<^verbatim>\<open>undefined\<close> is dropped by
  \<^verbatim>\<open>JSON.stringify\<close>, and the object is only ever serialized, so it is removed here.
\<close>

fun set_prop :: "string \<Rightarrow> jval option \<Rightarrow> (string \<times> jval) list \<Rightarrow> (string \<times> jval) list" where
  "set_prop k None kvs = AList.delete k kvs"
| "set_prop k (Some v) kvs = AList.update k v kvs"

text \<open>\<^verbatim>\<open>const { password, ...userSafe } = user\<close>.\<close>

definition without_password :: "jval \<Rightarrow> jval" where
  "without_password u = JObj (AList.delete ''password'' (own_props u))"

section \<open>The database file\<close>

text \<open>
  The file \<^verbatim>\<open>database.json\<close>: absent, unreadable (\<^verbatim>\<open>readFileSync\<close> throws), not JSON
  (\<^verbatim>\<open>JSON.parse\<close> throws), or holding a JSON value. \<open>writable\<close> tells whether
  \<^verbatim>\<open>writeFileSync\<close> succeeds; a failed write is taken to leave the file as it was.
\<close>

datatype file_state = Absent | ReadFails | Malformed | Content jval

record storage =
  db_file :: file_state
  writable :: bool

text \<open>
  The document in memory. \<^verbatim>\<open>getDb\<close> may return a parsed array on which it has set the
  named properties \<^verbatim>\<open>users\<close> and \<^verbatim>\<open>sessions\<close>; \<^verbatim>\<open>JSON.stringify\<close> writes only the
  elements of an array, so the two are kept apart.
\<close>

datatype db = DbObj "(string \<times> jval) list" | DbArr "jval list" "(string \<times> jval) list"

fun db_get :: "db \<Rightarrow> string \<Rightarrow> jval option" where
  "db_get (DbObj kvs) k = map_of kvs k"
| "db_get (DbArr xs ps) k = map_of ps k"

fun db_set :: "db \<Rightarrow> string \<Rightarrow> jval \<Rightarrow> db" where
  "db_set (DbObj kvs) k v = DbObj (AList.update k v kvs)"
| "db_set (DbArr xs ps) k v = DbArr xs (AList.update k v ps)"

fun stringify :: "db \<Rightarrow> jval" where
  "stringify (DbObj kvs) = JObj kvs"
| "stringify (DbArr xs ps) = JArr xs"

definition empty_db :: db where
  "empty_db = DbObj [(''users'', JArr []), (''sessions'', JArr [])]"

text \<open>
  \<^verbatim>\<open>if (!parsed.users) parsed.users = []; if (!parsed.sessions) parsed.sessions = [];\<close>
\<close>

definition complete :: "db \<Rightarrow> db" where
  "complete p =
     (let p1 = (if \<not> truthy (db_get p ''users'') then db_set p ''users'' (JArr []) else p)
      in if \<not> truthy (db_get p1 ''sessions'') then db_set p1 ''sessions'' (JArr []) else p1)"

text \<open>
  The body of the \<^verbatim>\<open>try\<close> in \<^verbatim>\<open>getDb\<close>. Reading \<^verbatim>\<open>parsed.users\<close> of \<^verbatim>\<open>null\<close>
  throws; on a number, a string or a boolean the read gives \<^verbatim>\<open>undefined\<close> and the
  assignment that follows throws, the file being an ES module and so in strict mode.
\<close>

fun getDb_try :: "storage \<Rightarrow> js_error + db" where
  "getDb_try s =
     (case db_file s of
        Absent \<Rightarrow> Inr empty_db
      | ReadFails \<Rightarrow> Inl IOError
      | Malformed \<Rightarrow> Inl SyntaxError
      | Content (JObj kvs) \<Rightarrow> Inr (complete (DbObj kvs))
      | Content (JArr xs) \<Rightarrow> Inr (complete (DbArr xs []))
      | Content v \<Rightarrow> Inl TypeError)"

text \<open>\<^verbatim>\<open>getDb\<close>: the \<^verbatim>\<open>catch\<close> answers every exception with a fresh empty document.\<close>

definition getDb :: "storage \<Rightarrow> db" where
  "getDb s = (case getDb_try s of Inl e \<Rightarrow> empty_db | Inr d \<Rightarrow> d)"

text \<open>\<^verbatim>\<open>saveDb\<close>: \<^verbatim>\<open>true\<close> when the file was written, \<^verbatim>\<open>false\<close> when the write threw.\<close>

definition saveDb :: "storage \<Rightarrow> db \<Rightarrow> bool \<times> storage" where
  "saveDb s d =
     (if writable s then (True, s\<lparr>db_file := Content (stringify d)\<rparr>) else (False, s))"

record response =
  status :: nat
  body :: jval

definition reply :: "nat \<Rightarrow> jval \<Rightarrow> response" where
  "reply c b = \<lparr>status = c, body = b\<rparr>"

definition error_body :: "string \<Rightarrow> jval" where
  "error_body m = JObj [(''error'', JStr m)]"

section \<open>The texts of the server\<close>

text \<open>
  The Persian texts of the source, as the bytes of their UTF-8 encoding; each is given with
  its meaning.
\<close>

text \<open>"Please fill in all fields."\<close>

definition msg_fill_all_fields :: string where
  "msg_fill_all_fields = map char_of
     [217::nat, 132, 216, 183, 217, 129, 216, 167, 32, 216, 170, 217, 133, 216, 167, 217,
      133, 32, 217, 129, 219, 140, 217, 132, 216, 175, 217, 135, 216, 167, 32, 216, 177,
      216, 167, 32, 217, 190, 216, 177, 32, 218, 169, 217, 134, 219, 140, 216, 175, 46]"

text \<open>"This phone number is already registered."\<close>

definition msg_phone_taken :: string where
  "msg_phone_taken = map char_of
     [216::nat, 167, 219, 140, 217, 134, 32, 216, 180, 217, 133, 216, 167, 216, 177, 217,
      135, 32, 216, 170, 217, 132, 217, 129, 217, 134, 32, 217, 130, 216, 168, 217, 132,
      216, 167, 32, 216, 171, 216, 168, 216, 170, 32, 216, 180, 216, 175, 217, 135, 32,
      216, 167, 216, 179, 216, 170, 46]"

text \<open>"New user"\<close>

definition bio_new_user :: string where
  "bio_new_user = map char_of
     [218::nat, 169, 216, 167, 216, 177, 216, 168, 216, 177, 32, 216, 172, 216, 175, 219,
      140, 216, 175]"

text \<open>"Error while storing"\<close>

definition msg_store_failed :: string where
  "msg_store_failed = map char_of
     [216::nat, 174, 216, 183, 216, 167, 32, 216, 175, 216, 177, 32, 216, 176, 216, 174,
      219, 140, 216, 177, 217, 135, 32, 216, 179, 216, 167, 216, 178, 219, 140]"

text \<open>"Internal server error"\<close>

definition msg_internal_error :: string where
  "msg_internal_error = map char_of
     [216::nat, 174, 216, 183, 216, 167, 219, 140, 32, 216, 175, 216, 167, 216, 174, 217,
      132, 219, 140, 32, 216, 179, 216, 177, 217, 136, 216, 177]"

text \<open>"User name and password are required."\<close>

definition msg_credentials_required :: string where
  "msg_credentials_required = map char_of
     [217::nat, 134, 216, 167, 217, 133, 32, 218, 169, 216, 167, 216, 177, 216, 168, 216,
      177, 219, 140, 32, 217, 136, 32, 216, 177, 217, 133, 216, 178, 32, 216, 185, 216,
      168, 217, 136, 216, 177, 32, 216, 167, 217, 132, 216, 178, 216, 167, 217, 133, 219,
      140, 32, 216, 167, 216, 179, 216, 170, 46]"

text \<open>"No account with this number was found."\<close>

definition msg_account_not_found :: string where
  "msg_account_not_found = map char_of
     [216::nat, 173, 216, 179, 216, 167, 216, 168, 32, 218, 169, 216, 167, 216, 177, 216,
      168, 216, 177, 219, 140, 32, 216, 168, 216, 167, 32, 216, 167, 219, 140, 217, 134,
      32, 216, 180, 217, 133, 216, 167, 216, 177, 217, 135, 32, 219, 140, 216, 167, 217,
      129, 216, 170, 32, 217, 134, 216, 180, 216, 175, 46]"

text \<open>"The password is wrong."\<close>

definition msg_wrong_password :: string where
  "msg_wrong_password = map char_of
     [216::nat, 177, 217, 133, 216, 178, 32, 216, 185, 216, 168, 217, 136, 216, 177, 32,
      216, 167, 216, 180, 216, 170, 216, 168, 216, 167, 217, 135, 32, 216, 167, 216, 179,
      216, 170, 46]"

section \<open>The clock\<close>

text \<open>
  What registration reads from the clock: \<^verbatim>\<open>Date.now()\<close> in milliseconds, and the text
  \<^verbatim>\<open>new Date().toLocaleDateString('fa-IR')\<close> gives for today.
\<close>

record clock =
  now_ms :: nat
  today_fa :: string

text \<open>\<^verbatim>\<open>Date.now().toString()\<close>: the decimal digits.\<close>

definition digit :: "nat \<Rightarrow> char" where
  "digit d = ''0123456789'' ! d"

function show_nat :: "nat \<Rightarrow> string" where
  "show_nat n = (if n < 10 then [digit n] else show_nat (n div 10) @ [digit (n mod 10)])"
  by pat_completeness auto
termination
  by (relation "measure (\<lambda>n. n)") auto

declare show_nat.simps [simp del]

section \<open>The routes\<close>

text \<open>
  Every handler is a \<^verbatim>\<open>try\<close> whose \<^verbatim>\<open>catch\<close> answers 500. The body of the \<^verbatim>\<open>try\<close> is a
  function to \<open>js_error + response \<times> storage\<close>; no handler throws after it has written the
  file, so an exception leaves the storage as it was.
\<close>

subsection \<open>\<^verbatim>\<open>POST /api/auth/register\<close>\<close>

definition new_user :: "clock \<Rightarrow> jval \<Rightarrow> jval \<Rightarrow> jval \<Rightarrow> (string \<times> jval) list" where
  "new_user c phone password name =
     [(''id'', JStr (show_nat (now_ms c))),
      (''phone'', phone),
      (''password'', password),
      (''name'', name),
      (''email'', JStr []),
      (''bio'', JStr bio_new_user),
      (''joinedDate'', JStr (today_fa c)),
      (''learnedData'', JArr []),
      (''traits'', JArr []),
      (''customInstructions'', JStr [])]"

text \<open>
  A field of the request that is \<^verbatim>\<open>undefined\<close> is falsy, so the last branch answers 400
  as the test on the three fields does.
\<close>

definition register_try :: "clock \<Rightarrow> jval \<Rightarrow> storage \<Rightarrow> js_error + response \<times> storage" where
  "register_try c req s =
     (case get_prop req ''phone'' of Inl e \<Rightarrow> Inl e | Inr phone \<Rightarrow>
      case get_prop req ''password'' of Inl e \<Rightarrow> Inl e | Inr password \<Rightarrow>
      case get_prop req ''name'' of Inl e \<Rightarrow> Inl e | Inr name \<Rightarrow>
      (case (phone, password, name) of
         (Some ph, Some pw, Some nm) \<Rightarrow>
           if \<not> truthy phone \<or> \<not> truthy password \<or> \<not> truthy name
           then Inr (reply 400 (error_body msg_fill_all_fields), s)
           else
             let db = getDb s in
             (case as_array (db_get db ''users'') of Inl e \<Rightarrow> Inl e | Inr us \<Rightarrow>
              case find_js (prop_is ''phone'' phone) us of Inl e \<Rightarrow> Inl e | Inr existingUser \<Rightarrow>
                if truthy existingUser
                then Inr (reply 409 (error_body msg_phone_taken), s)
                else
                  let newUser = new_user c ph pw nm;
                      (saved, s') = saveDb s (db_set db ''users'' (JArr (us @ [JObj newUser])))
                  in if saved
                     then Inr (reply 200 (without_password (JObj newUser)), s')
                     else Inr (reply 500 (error_body msg_store_failed), s'))
       | _ \<Rightarrow> Inr (reply 400 (error_body msg_fill_all_fields), s)))"

definition register :: "clock \<Rightarrow> jval \<Rightarrow> storage \<Rightarrow> response \<times> storage" where
  "register c req s =
     (case register_try c req s of
        Inl e \<Rightarrow> (reply 500 (error_body msg_internal_error), s)
      | Inr r \<Rightarrow> r)"

subsection \<open>\<^verbatim>\<open>POST /api/auth/login\<close>\<close>

definition login_try :: "jval \<Rightarrow> storage \<Rightarrow> js_error + response \<times> storage" where
  "login_try req s =
     (case get_prop req ''phone'' of Inl e \<Rightarrow> Inl e | Inr phone \<Rightarrow>
      case get_prop req ''password'' of Inl e \<Rightarrow> Inl e | Inr password \<Rightarrow>
      if \<not> truthy phone \<or> \<not> truthy password
      then Inr (reply 400 (error_body msg_credentials_required), s)
      else
        let db = getDb s in
        (case as_array (db_get db ''users'') of Inl e \<Rightarrow> Inl e | Inr us \<Rightarrow>
         case find_js (prop_is ''phone'' phone) us of Inl e \<Rightarrow> Inl e | Inr user \<Rightarrow>
           if \<not> truthy user
           then Inr (reply 404 (error_body msg_account_not_found), s)
           else
             (case user of
                None \<Rightarrow> Inr (reply 404 (error_body msg_account_not_found), s)
              | Some u \<Rightarrow>
                  (case get_prop u ''password'' of Inl e \<Rightarrow> Inl e | Inr stored \<Rightarrow>
                   if \<not> strict_eq stored password
                   then Inr (reply 401 (error_body msg_wrong_password), s)
                   else Inr (reply 200 (without_password u), s)))))"

definition login :: "jval \<Rightarrow> storage \<Rightarrow> response \<times> storage" where
  "login req s =
     (case login_try req s of
        Inl e \<Rightarrow> (reply 500 (error_body msg_internal_error), s)
      | Inr r \<Rightarrow> r)"

subsection \<open>\<^verbatim>\<open>POST /api/user/update\<close>\<close>

text \<open>
  \<^verbatim>\<open>db.users[index] = { ...updatedUser, password: currentPass }\<close>; the result of
  \<^verbatim>\<open>saveDb\<close> is not looked at, and the answer is the request.
\<close>

definition update_try :: "jval \<Rightarrow> storage \<Rightarrow> js_error + response \<times> storage" where
  "update_try updatedUser s =
     (case get_prop updatedUser ''id'' of Inl e \<Rightarrow> Inl e | Inr uid \<Rightarrow>
      if \<not> truthy uid
      then Inr (reply 400 (error_body ''ID required''), s)
      else
        let db = getDb s in
        (case as_array (db_get db ''users'') of Inl e \<Rightarrow> Inl e | Inr us \<Rightarrow>
         case findIndex_js (prop_is ''id'' uid) us of
           Inl e \<Rightarrow> Inl e
         | Inr None \<Rightarrow> Inr (reply 404 (error_body ''User not found''), s)
         | Inr (Some index) \<Rightarrow>
             (case get_prop (us ! index) ''password'' of Inl e \<Rightarrow> Inl e | Inr currentPass \<Rightarrow>
              let merged = JObj (set_prop ''password'' currentPass (own_props updatedUser));
                  (saved, s') = saveDb s (db_set db ''users'' (JArr (us[index := merged])))
              in Inr (reply 200 updatedUser, s'))))"

definition update_user :: "jval \<Rightarrow> storage \<Rightarrow> response \<times> storage" where
  "update_user updatedUser s =
     (case update_try updatedUser s of
        Inl e \<Rightarrow> (reply 500 (error_body ''Update failed''), s)
      | Inr r \<Rightarrow> r)"

subsection \<open>\<^verbatim>\<open>GET /api/user/:id\<close>\<close>

definition get_user_try :: "string \<Rightarrow> storage \<Rightarrow> js_error + response \<times> storage" where
  "get_user_try uid s =
     (let db = getDb s in
      case as_array (db_get db ''users'') of Inl e \<Rightarrow> Inl e | Inr us \<Rightarrow>
      case find_js (prop_is ''id'' (Some (JStr uid))) us of Inl e \<Rightarrow> Inl e | Inr user \<Rightarrow>
        (case user of
           None \<Rightarrow> Inr (reply 404 (error_body ''User not found''), s)
         | Some u \<Rightarrow>
             if truthy user
             then Inr (reply 200 (without_password u), s)
             else Inr (reply 404 (error_body ''User not found''), s)))"

definition get_user :: "string \<Rightarrow> storage \<Rightarrow> response \<times> storage" where
  "get_user uid s =
     (case get_user_try uid s of
        Inl e \<Rightarrow> (reply 500 (error_body ''Server Error''), s)
      | Inr r \<Rightarrow> r)"

subsection \<open>\<^verbatim>\<open>GET /api/sessions/:userId\<close>\<close>

definition list_sessions_try :: "string \<Rightarrow> storage \<Rightarrow> js_error + response \<times> storage" where
  "list_sessions_try uid s =
     (let db = getDb s in
      case as_array (db_get db ''sessions'') of Inl e \<Rightarrow> Inl e | Inr ss \<Rightarrow>
      case filter_js (prop_is ''userId'' (Some (JStr uid))) ss of Inl e \<Rightarrow> Inl e | Inr mine \<Rightarrow>
        Inr (reply 200 (JArr mine), s))"

definition list_sessions :: "string \<Rightarrow> storage \<Rightarrow> response \<times> storage" where
  "list_sessions uid s =
     (case list_sessions_try uid s of
        Inl e \<Rightarrow> (reply 500 (JArr []), s)
      | Inr r \<Rightarrow> r)"

subsection \<open>\<^verbatim>\<open>POST /api/sessions\<close>\<close>

text \<open>The callback \<^verbatim>\<open>s => s.id === session.id\<close>, which reads both sides at every element.\<close>

definition same_id :: "jval \<Rightarrow> jval \<Rightarrow> js_error + bool" where
  "same_id session x =
     (case get_prop x ''id'' of Inl e \<Rightarrow> Inl e | Inr w \<Rightarrow>
      case get_prop session ''id'' of Inl e \<Rightarrow> Inl e | Inr v \<Rightarrow> Inr (strict_eq w v))"

text \<open>The result of \<^verbatim>\<open>saveDb\<close> is not looked at, and the answer is the request.\<close>

definition upsert_try :: "jval \<Rightarrow> storage \<Rightarrow> js_error + response \<times> storage" where
  "upsert_try session s =
     (let db = getDb s in
      case as_array (db_get db ''sessions'') of Inl e \<Rightarrow> Inl e | Inr ss \<Rightarrow>
      case findIndex_js (same_id session) ss of Inl e \<Rightarrow> Inl e | Inr found \<Rightarrow>
        let ss' = (case found of Some index \<Rightarrow> ss[index := session] | None \<Rightarrow> ss @ [session]);
            (saved, s') = saveDb s (db_set db ''sessions'' (JArr ss'))
        in Inr (reply 200 session, s'))"

definition upsert_session :: "jval \<Rightarrow> storage \<Rightarrow> response \<times> storage" where
  "upsert_session session s =
     (case upsert_try session s of
        Inl e \<Rightarrow> (reply 500 (error_body ''Save failed''), s)
      | Inr r \<Rightarrow> r)"

subsection \<open>\<^verbatim>\<open>DELETE /api/sessions/:id\<close>\<close>

definition delete_try :: "string \<Rightarrow> storage \<Rightarrow> js_error + response \<times> storage" where
  "delete_try sid s =
     (let db = getDb s in
      case as_array (db_get db ''sessions'') of Inl e \<Rightarrow> Inl e | Inr ss \<Rightarrow>
      case filter_js (prop_is_not ''id'' (Some (JStr sid))) ss of Inl e \<Rightarrow> Inl e | Inr kept \<Rightarrow>
        if length kept \<noteq> length ss
        then
          let (saved, s') = saveDb s (db_set db ''sessions'' (JArr kept))
          in Inr (reply 200 (JObj [(''success'', JBool True)]), s')
        else Inr (reply 404 (error_body ''Session not found''), s))"

definition delete_session :: "string \<Rightarrow> storage \<Rightarrow> response \<times> storage" where
  "delete_session sid s =
     (case delete_try sid s of
        Inl e \<Rightarrow> (reply 500 (error_body ''Delete failed''), s)
      | Inr r \<Rightarrow> r)"

section \<open>What the routes leave in the file\<close>

text \<open>
  The two collections as the next handler will read them: \<^verbatim>\<open>getDb().users\<close> and
  \<^verbatim>\<open>getDb().sessions\<close>.
\<close>

definition users_of :: "storage \<Rightarrow> jval option" where
  "users_of s = db_get (getDb s) ''users''"

definition sessions_of :: "storage \<Rightarrow> jval option" where
  "sessions_of s = db_get (getDb s) ''sessions''"

text \<open>The property \<open>k\<close> of \<open>x\<close> can be read and is \<open>v\<close>.\<close>

definition field_is :: "string \<Rightarrow> jval option \<Rightarrow> jval \<Rightarrow> bool" where
  "field_is k v x = (get_prop x k = Inr v)"

text \<open>The file holds a JSON array at its top level, where the server writes an object.\<close>

definition bare_array :: "storage \<Rightarrow> bool" where
  "bare_array s = (case db_file s of Content (JArr xs) \<Rightarrow> True | _ \<Rightarrow> False)"

text \<open>The file as the server creates it at start when there is none.\<close>

definition fresh_storage :: storage where
  "fresh_storage =
     \<lparr>db_file = Content (JObj [(''users'', JArr []), (''sessions'', JArr [])]), writable = True\<rparr>"


section \<open>The storages the server produces\<close>

text \<open>
  The storages that arise from the file the server creates at start, through its four
  writing routes and through changes of whether the disk can be written. A request body is
  an object or an array, never \<^verbatim>\<open>null\<close>. \<open>sound\<close> is what all of them have in common: the
  file holds an object, both collections are sequences without \<^verbatim>\<open>null\<close>, and no two stored
  sessions share an id that is a string, a number, a boolean, \<^verbatim>\<open>null\<close> or missing.
\<close>

inductive served :: "storage \<Rightarrow> bool" where
  at_start: "served fresh_storage"
| disk_changes: "served s \<Longrightarrow> served (s\<lparr>writable := w\<rparr>)"
| after_register: "served s \<Longrightarrow> served (snd (register c req s))"
| after_update: "served s \<Longrightarrow> served (snd (update_user req s))"
| after_upsert: "served s \<Longrightarrow> req \<noteq> JNull \<Longrightarrow> served (snd (upsert_session req s))"
| after_delete: "served s \<Longrightarrow> served (snd (delete_session sid s))"

definition sound :: "storage \<Rightarrow> bool" where
  "sound s =
     (\<not> bare_array s \<and>
      (\<exists>us. users_of s = Some (JArr us) \<and> JNull \<notin> set us) \<and>
      (\<exists>ss. sessions_of s = Some (JArr ss) \<and> JNull \<notin> set ss \<and>
            (\<forall>v. primitive v \<longrightarrow> length (filter (field_is ''id'' v) ss) \<le> 1)))"

section \<open>The live audio bridge\<close>

text \<open>
  The hook \<^verbatim>\<open>useLiveGemini\<close>. Times (the clock of the output context, start times,
  durations) are of a type \<open>'t\<close> that is linearly ordered and has an addition and a zero;
  nothing more is asked of it, so the results hold whatever the addition of the clock's
  numbers is. Each reaction runs to its end before the next one starts.

  A buffer source node is known by its number: the nodes are numbered in the order in which
  \<^verbatim>\<open>createBufferSource\<close> makes them, and \<open>nodes\<close> lists for every node made so far the time
  given to \<^verbatim>\<open>start\<close> and the duration of its buffer. \<open>stopped\<close> holds the nodes on which
  \<^verbatim>\<open>stop\<close> was called, \<open>toolResponses\<close> what was passed to \<^verbatim>\<open>sendToolResponse\<close>.

  A function call is given by its id, its name and the text that the template of
  \<^verbatim>\<open>getLocalKnowledge\<close> renders for its query.
\<close>

record fcall =
  fc_id :: string
  fc_name :: string
  fc_query :: string

record tool_response =
  tr_id :: string
  tr_name :: string
  tr_result :: string

text \<open>
  A message of the server, as the handler reads it: \<^verbatim>\<open>msg.toolCall\<close> with its
  \<^verbatim>\<open>functionCalls\<close>, the text
  \<^verbatim>\<open>msg.serverContent?.modelTurn?.parts?.[0]?.inlineData?.data\<close>, and whether
  \<^verbatim>\<open>msg.serverContent?.interrupted\<close> is set.
\<close>

record message =
  toolCall :: "fcall list option"
  audio :: "string option"
  interrupted :: bool

record 't bridge =
  isConnected :: bool
  isSpeaking :: bool
  error :: "string option"
  outputAudioContext :: bool
  sessionPromise :: bool
  nextStartTime :: 't
  sources :: "nat set"
  nodes :: "('t \<times> 't) list"
  stopped :: "nat set"
  toolResponses :: "tool_response list"

definition initial_bridge :: "('t::zero) bridge" where
  "initial_bridge =
     \<lparr>isConnected = False, isSpeaking = False, error = None, outputAudioContext = False,
      sessionPromise = False, nextStartTime = 0, sources = {}, nodes = [], stopped = {},
      toolResponses = []\<rparr>"

text \<open>The text before the query: "Information for", then an opening quotation mark.\<close>

definition knowledge_prefix :: string where
  "knowledge_prefix = map char_of
     [216::nat, 167, 216, 183, 217, 132, 216, 167, 216, 185, 216, 167, 216, 170, 32, 216,
      168, 216, 177, 216, 167, 219, 140, 32, 34]"

text \<open>
  The text after the query: a closing quotation mark, a colon, then "Rafsanjan is the largest
  producer of pistachios in the world. Its sights include the house of Haj Agha Ali, the
  presidential museum and the historic bazaar."
\<close>

definition knowledge_suffix :: string where
  "knowledge_suffix = map char_of
     [34::nat, 58, 32, 216, 177, 217, 129, 216, 179, 217, 134, 216, 172, 216, 167, 217,
      134, 32, 216, 168, 216, 178, 216, 177, 218, 175, 216, 170, 216, 177, 219, 140, 217,
      134, 32, 216, 170, 217, 136, 217, 132, 219, 140, 216, 175, 32, 218, 169, 217, 134,
      217, 134, 216, 175, 217, 135, 32, 217, 190, 216, 179, 216, 170, 217, 135, 32, 216,
      175, 216, 177, 32, 216, 172, 217, 135, 216, 167, 217, 134, 32, 216, 167, 216, 179,
      216, 170, 46, 32, 216, 172, 216, 167, 216, 176, 216, 168, 217, 135, 226, 128, 140,
      217, 135, 216, 167, 219, 140, 32, 218, 175, 216, 177, 216, 175, 216, 180, 218, 175,
      216, 177, 219, 140, 32, 216, 180, 216, 167, 217, 133, 217, 132, 32, 216, 174, 216,
      167, 217, 134, 217, 135, 32, 216, 173, 216, 167, 216, 172, 32, 216, 162, 217, 130,
      216, 167, 32, 216, 185, 217, 132, 219, 140, 216, 140, 32, 217, 133, 217, 136, 216,
      178, 217, 135, 32, 216, 177, 219, 140, 216, 167, 216, 179, 216, 170, 32, 216, 172,
      217, 133, 217, 135, 217, 136, 216, 177, 219, 140, 32, 217, 136, 32, 216, 168, 216,
      167, 216, 178, 216, 167, 216, 177, 32, 216, 170, 216, 167, 216, 177, 219, 140, 216,
      174, 219, 140, 32, 216, 167, 216, 179, 216, 170, 46]"

text \<open>The canned answer of \<^verbatim>\<open>getLocalKnowledge\<close>: a fixed text around the query.\<close>

definition getLocalKnowledge :: "string \<Rightarrow> string" where
  "getLocalKnowledge query = knowledge_prefix @ query @ knowledge_suffix"

definition tool_reaction :: "message \<Rightarrow> 't bridge \<Rightarrow> 't bridge" where
  "tool_reaction msg b =
     (case toolCall msg of
        None \<Rightarrow> b
      | Some functionCalls \<Rightarrow>
          b\<lparr>toolResponses := toolResponses b @
               map (\<lambda>fc. \<lparr>tr_id = fc_id fc, tr_name = fc_name fc,
                           tr_result = getLocalKnowledge (fc_query fc)\<rparr>)
                 (filter (\<lambda>fc. fc_name fc = ''search_knowledge_base'') functionCalls)\<rparr>)"

text \<open>
  The lines after \<^verbatim>\<open>if (!ctx) return;\<close>. \<open>now\<close> is \<^verbatim>\<open>ctx.currentTime\<close> and
  \<open>duration_of\<close> gives the duration of the buffer that \<^verbatim>\<open>decodeAudioData\<close> returns for a
  payload.
\<close>

definition schedule_chunk ::
  "(string \<Rightarrow> 't) \<Rightarrow> 't \<Rightarrow> string \<Rightarrow> ('t::{linorder,plus}) bridge \<Rightarrow> 't bridge" where
  "schedule_chunk duration_of now base64Audio b =
     (let b1 = b\<lparr>nextStartTime := max (nextStartTime b) now\<rparr>;
          d = duration_of base64Audio;
          source = length (nodes b1);
          b2 = b1\<lparr>nodes := nodes b1 @ [(nextStartTime b1, d)]\<rparr>;
          b3 = b2\<lparr>nextStartTime := nextStartTime b2 + d\<rparr>
      in b3\<lparr>sources := insert source (sources b3)\<rparr>)"

text \<open>
  The audio part of \<^verbatim>\<open>onmessage\<close>. The second component tells whether the handler goes
  on to the interruption part: it does not after \<^verbatim>\<open>if (!ctx) return;\<close>.
\<close>

definition audio_reaction ::
  "(string \<Rightarrow> 't) \<Rightarrow> 't \<Rightarrow> message \<Rightarrow> ('t::{linorder,plus}) bridge \<Rightarrow> 't bridge \<times> bool" where
  "audio_reaction duration_of now msg b =
     (case audio msg of
        None \<Rightarrow> (b, True)
      | Some base64Audio \<Rightarrow>
          if base64Audio = [] then (b, True)
          else
            let b1 = b\<lparr>isSpeaking := True\<rparr>
            in if \<not> outputAudioContext b1 then (b1, False)
               else (schedule_chunk duration_of now base64Audio b1, True))"

definition interruption_reaction :: "message \<Rightarrow> ('t::zero) bridge \<Rightarrow> 't bridge" where
  "interruption_reaction msg b =
     (if interrupted msg
      then b\<lparr>stopped := stopped b \<union> sources b, sources := {}, nextStartTime := 0,
             isSpeaking := False\<rparr>
      else b)"

definition onmessage ::
  "(string \<Rightarrow> 't) \<Rightarrow> 't \<Rightarrow> message \<Rightarrow> ('t::{linorder,plus,zero}) bridge \<Rightarrow> 't bridge" where
  "onmessage duration_of now msg b =
     (let (b1, goes_on) = audio_reaction duration_of now msg (tool_reaction msg b)
      in if goes_on then interruption_reaction msg b1 else b1)"

text \<open>The listener for \<^verbatim>\<open>ended\<close> that the audio part puts on every node.\<close>

definition ended :: "nat \<Rightarrow> 't bridge \<Rightarrow> 't bridge" where
  "ended source b =
     (let b1 = b\<lparr>sources := sources b - {source}\<rparr>
      in if sources b1 = {} then b1\<lparr>isSpeaking := False\<rparr> else b1)"

definition onopen :: "'t bridge \<Rightarrow> 't bridge" where
  "onopen b = b\<lparr>isConnected := True\<rparr>"

definition onclose :: "'t bridge \<Rightarrow> 't bridge" where
  "onclose b = b\<lparr>isConnected := False, isSpeaking := False\<rparr>"

definition onerror :: "'t bridge \<Rightarrow> 't bridge" where
  "onerror b = b\<lparr>error := Some ''Connection Error'', isConnected := False\<rparr>"

definition disconnect :: "'t bridge \<Rightarrow> 't bridge" where
  "disconnect b = b\<lparr>isConnected := False, isSpeaking := False\<rparr>"

text \<open>
  \<^verbatim>\<open>connect\<close>, by where it ends: no API key; a context cannot be made; the microphone or
  the system instruction fails, which is after the two context references are set; or the
  session is asked for and its four handlers are registered. The text of an exception is
  \<^verbatim>\<open>err.message || "Failed to connect"\<close>.
\<close>

datatype connect_outcome =
    NoApiKey
  | ContextFails "string option"
  | SetupFails "string option"
  | SessionRequested

fun failure_text :: "string option \<Rightarrow> string" where
  "failure_text None = ''Failed to connect''"
| "failure_text (Some m) = (if m = [] then ''Failed to connect'' else m)"

fun connect :: "connect_outcome \<Rightarrow> 't bridge \<Rightarrow> 't bridge" where
  "connect NoApiKey b = b\<lparr>error := Some ''API Key missing''\<rparr>"
| "connect (ContextFails m) b = b\<lparr>error := Some (failure_text m)\<rparr>"
| "connect (SetupFails m) b = b\<lparr>outputAudioContext := True, error := Some (failure_text m)\<rparr>"
| "connect SessionRequested b = b\<lparr>outputAudioContext := True, sessionPromise := True\<rparr>"

text \<open>
  The states the hook can be in. The handlers of a session run only once \<^verbatim>\<open>connect\<close> has
  asked for the session, and \<^verbatim>\<open>ended\<close> fires only for a node that was made.
\<close>

inductive reachable :: "('t::{linorder,plus,zero}) bridge \<Rightarrow> bool" where
  start: "reachable initial_bridge"
| after_connect: "reachable b \<Longrightarrow> reachable (connect outcome b)"
| after_disconnect: "reachable b \<Longrightarrow> reachable (disconnect b)"
| after_onopen: "reachable b \<Longrightarrow> sessionPromise b \<Longrightarrow> reachable (onopen b)"
| after_onmessage:
    "reachable b \<Longrightarrow> sessionPromise b \<Longrightarrow> reachable (onmessage duration_of now msg b)"
| after_onclose: "reachable b \<Longrightarrow> sessionPromise b \<Longrightarrow> reachable (onclose b)"
| after_onerror: "reachable b \<Longrightarrow> sessionPromise b \<Longrightarrow> reachable (onerror b)"
| after_ended: "reachable b \<Longrightarrow> source < length (nodes b) \<Longrightarrow> reachable (ended source b)"

section \<open>Properties of the persistence service\<close>

subsection \<open>Reading and writing the file\<close>

lemma complete_obj:
  "\<exists>kvs'. complete (DbObj kvs) = DbObj kvs' \<and> truthy (map_of kvs' ''users'') \<and> truthy (map_of kvs' ''sessions'')
      \<and> map_of kvs' ''users'' = (if truthy (map_of kvs ''users'') then map_of kvs ''users'' else Some (JArr []))
      \<and> map_of kvs' ''sessions'' = (if truthy (map_of kvs ''sessions'') then map_of kvs ''sessions'' else Some (JArr []))"
  by (auto simp: complete_def Let_def update_conv')

lemma complete_arr:
  "complete (DbArr xs []) = DbArr xs [(''users'', JArr []), (''sessions'', JArr [])]"
  by (simp add: complete_def Let_def)

lemma complete_fixed:
  "truthy (map_of kvs ''users'') \<Longrightarrow> truthy (map_of kvs ''sessions'') \<Longrightarrow> complete (DbObj kvs) = DbObj kvs"
  by (simp add: complete_def Let_def)

lemma getDb_cases:
  "(\<exists>kvs. getDb s = DbObj kvs \<and> truthy (map_of kvs ''users'') \<and> truthy (map_of kvs ''sessions'') \<and> \<not> bare_array s)
   \<or> (\<exists>xs. db_file s = Content (JArr xs) \<and> getDb s = DbArr xs [(''users'', JArr []), (''sessions'', JArr [])])"
proof (cases "db_file s")
  case (Content v)
  then show ?thesis
    using complete_obj [of "case v of JObj kvs \<Rightarrow> kvs | _ \<Rightarrow> []"]
    by (cases v) (auto simp: getDb_def empty_db_def complete_arr bare_array_def)
qed (auto simp: getDb_def empty_db_def bare_array_def)

lemma getDb_written:
  "truthy (map_of kvs ''users'') \<Longrightarrow> truthy (map_of kvs ''sessions'') \<Longrightarrow>
   getDb (s\<lparr>db_file := Content (JObj kvs)\<rparr>) = DbObj kvs"
  by (simp add: getDb_def complete_fixed)

lemma getDb_rewritten_array:
  "db_file s = Content (JArr xs) \<Longrightarrow> getDb (s\<lparr>db_file := Content (JArr xs)\<rparr>) = getDb s"
  by (simp add: getDb_def)

lemma bare_array_empty: "bare_array s \<Longrightarrow> sessions_of s = Some (JArr []) \<and> users_of s = Some (JArr [])"
  by (auto simp: bare_array_def sessions_of_def users_of_def getDb_def complete_arr
      split: file_state.splits jval.splits)


lemma save_other_key:
  assumes "k \<noteq> k'" "k' = ''users'' \<or> k' = ''sessions''"
  shows "db_get (getDb (snd (saveDb s (db_set (getDb s) k v)))) k' = db_get (getDb s) k'"
proof (cases "writable s")
  case False
  then show ?thesis by (simp add: saveDb_def)
next
  case True
  from getDb_cases [of s] show ?thesis
  proof (elim disjE exE conjE)
    fix kvs assume g: "getDb s = DbObj kvs" and t: "truthy (map_of kvs ''users'')" "truthy (map_of kvs ''sessions'')"
    obtain kvs' where c: "complete (DbObj (AList.update k v kvs)) = DbObj kvs'"
      "map_of kvs' ''users'' = (if truthy (map_of (AList.update k v kvs) ''users'') then map_of (AList.update k v kvs) ''users'' else Some (JArr []))"
      "map_of kvs' ''sessions'' = (if truthy (map_of (AList.update k v kvs) ''sessions'') then map_of (AList.update k v kvs) ''sessions'' else Some (JArr []))"
      using complete_obj [of "AList.update k v kvs"] by blast
    have "getDb (snd (saveDb s (db_set (getDb s) k v))) = DbObj kvs'"
      using True g c(1) by (simp add: saveDb_def getDb_def)
    with assms t g c(2,3) show ?thesis
      by (auto simp: update_conv')
  next
    fix xs assume f: "db_file s = Content (JArr xs)"
      and g: "getDb s = DbArr xs [(''users'', JArr []), (''sessions'', JArr [])]"
    have "snd (saveDb s (db_set (getDb s) k v)) = s\<lparr>db_file := Content (JArr xs)\<rparr>"
      using True g by (simp add: saveDb_def)
    then show ?thesis using getDb_rewritten_array [OF f] by simp
  qed
qed

lemma save_this_key:
  assumes "writable s" "\<not> bare_array s" "k = ''users'' \<or> k = ''sessions''"
  shows "\<exists>s'. saveDb s (db_set (getDb s) k (JArr xs)) = (True, s') \<and> db_get (getDb s') k = Some (JArr xs)
          \<and> writable s' \<and> \<not> bare_array s'"
proof -
  from getDb_cases [of s] assms(2) obtain kvs where g: "getDb s = DbObj kvs"
    and t: "truthy (map_of kvs ''users'')" "truthy (map_of kvs ''sessions'')"
    by (auto simp: bare_array_def)
  let ?kvs = "AList.update k (JArr xs) kvs"
  have t': "truthy (map_of ?kvs ''users'')" "truthy (map_of ?kvs ''sessions'')"
    using t assms(3) by (auto simp: update_conv')
  have "saveDb s (db_set (getDb s) k (JArr xs)) = (True, s\<lparr>db_file := Content (JObj ?kvs)\<rparr>)"
    using assms(1) g by (simp add: saveDb_def)
  moreover have "db_get (getDb (s\<lparr>db_file := Content (JObj ?kvs)\<rparr>)) k = Some (JArr xs)"
    using getDb_written [OF t'] by (simp add: update_conv')
  ultimately show ?thesis using assms(1) by (simp add: bare_array_def)
qed

lemma save_ok:
  assumes "writable s" "\<not> bare_array s" "k = ''users'' \<or> k = ''sessions''"
  shows "db_get (getDb (snd (saveDb s (db_set (getDb s) k (JArr xs))))) k = Some (JArr xs)"
    and "writable (snd (saveDb s (db_set (getDb s) k (JArr xs))))"
    and "\<not> bare_array (snd (saveDb s (db_set (getDb s) k (JArr xs))))"
  using save_this_key [OF assms, of xs] by auto

lemma users_save_keeps_sessions:
  "sessions_of (snd (saveDb s (db_set (getDb s) ''users'' v))) = sessions_of s"
  unfolding sessions_of_def by (rule save_other_key) simp_all

lemma sessions_save_keeps_users:
  "users_of (snd (saveDb s (db_set (getDb s) ''sessions'' v))) = users_of s"
  unfolding users_of_def by (rule save_other_key) simp_all

subsection \<open>Comparisons and array searches\<close>

lemma strict_eq_prim: "primitive v \<Longrightarrow> strict_eq w v = (w = v)"
  by (cases v rule: primitive.cases; cases w rule: primitive.cases) auto

lemma prop_is_total: "x \<noteq> JNull \<Longrightarrow> \<exists>b. prop_is k v x = Inr b"
  by (cases x) (auto simp: prop_is_def)

lemma prop_is_not_total: "x \<noteq> JNull \<Longrightarrow> prop_is_not k v x = Inr (prop_is k v x \<noteq> Inr True)"
  by (cases x) (auto simp: prop_is_def prop_is_not_def)

lemma prop_is_obj: "prop_is k v x = Inr True \<Longrightarrow> truthy v \<Longrightarrow> \<exists>kvs. x = JObj kvs \<and> truthy (map_of kvs k)"
  by (cases x; cases v) (auto simp: prop_is_def elim: strict_eq.elims)

lemma prop_is_truthy_obj:
  "prop_is k v x = Inr True \<Longrightarrow> truthy v \<Longrightarrow> \<exists>kvs. x = JObj kvs"
  using prop_is_obj by blast

lemma get_prop_truthy_obj: "get_prop x k = Inr v \<Longrightarrow> truthy v \<Longrightarrow> \<exists>kvs. x = JObj kvs"
  by (cases x) auto

lemma prop_is_prim: "primitive v \<Longrightarrow> (prop_is k v x = Inr True) = (get_prop x k = Inr v)"
  by (cases x) (auto simp: prop_is_def strict_eq_prim)

lemma prop_is_field: "primitive v \<Longrightarrow> (prop_is k v x = Inr True) = field_is k v x"
  by (simp add: prop_is_prim field_is_def)



lemma field_is_value: "x \<noteq> JNull \<Longrightarrow> \<exists>w. get_prop x k = Inr w \<and> (\<forall>v. field_is k v x = (w = v))"
  by (cases x) (auto simp: field_is_def)

lemma field_is_truthy: "field_is k v x \<Longrightarrow> truthy v \<Longrightarrow> truthy (Some x)"
  by (cases x; cases v) (auto simp: field_is_def)


lemma find_js_total:
  "\<forall>x\<in>set xs. \<exists>b. p x = Inr b \<Longrightarrow> find_js p xs = Inr (List.find (\<lambda>x. p x = Inr True) xs)"
  by (induction xs) (auto split: sum.splits bool.splits)

lemma find_js_fields:
  assumes "JNull \<notin> set xs" "primitive v"
  shows "find_js (prop_is k v) xs = Inr (List.find (field_is k v) xs)"
proof -
  have t: "\<forall>x\<in>set xs. \<exists>b. prop_is k v x = Inr b"
    using assms(1) by (metis prop_is_total)
  have "(\<lambda>x. prop_is k v x = Inr True) = field_is k v"
    by (rule ext) (rule prop_is_field [OF assms(2)])
  with find_js_total [OF t] show ?thesis by simp
qed


lemma findIndex_js_Some:
  "findIndex_js p xs = Inr (Some i) \<Longrightarrow> i < length xs \<and> p (xs ! i) = Inr True \<and> (\<forall>j<i. p (xs ! j) = Inr False)"
proof (induction xs arbitrary: i)
  case Nil
  then show ?case by simp
next
  case (Cons x xs)
  then show ?case
    by (auto split: sum.splits bool.splits option.splits simp: nth_Cons less_Suc_eq_0_disj)
qed



lemma filter_js_total:
  "\<forall>x\<in>set xs. \<exists>b. p x = Inr b \<Longrightarrow> filter_js p xs = Inr (filter (\<lambda>x. p x = Inr True) xs)"
  by (induction xs) (auto split: sum.splits bool.splits)

lemma filter_js_not:
  assumes "JNull \<notin> set xs" "primitive v"
  shows "filter_js (prop_is_not k v) xs = Inr (filter (\<lambda>x. \<not> field_is k v x) xs)"
proof -
  have t: "\<forall>x\<in>set xs. \<exists>b. prop_is_not k v x = Inr b"
    using assms(1) by (metis prop_is_not_total)
  have "filter (\<lambda>x. prop_is_not k v x = Inr True) xs = filter (\<lambda>x. \<not> field_is k v x) xs"
  proof (rule filter_cong [OF refl])
    fix x assume "x \<in> set xs"
    then have "x \<noteq> JNull" using assms(1) by auto
    then show "(prop_is_not k v x = Inr True) = (\<not> field_is k v x)"
      using prop_is_field [OF assms(2), of k x] by (simp add: prop_is_not_total)
  qed
  with filter_js_total [OF t] show ?thesis by simp
qed

lemma length_filter_same: "(length (filter P xs) = length xs) = (\<forall>x\<in>set xs. P x)"
proof (induction xs)
  case Nil
  then show ?case by simp
next
  case (Cons x xs)
  show ?case
  proof (cases "P x")
    case True
    with Cons show ?thesis by simp
  next
    case False
    have "length (filter P xs) \<noteq> Suc (length xs)"
      using length_filter_le [of P xs] by linarith
    with False show ?thesis by simp
  qed
qed


lemma without_password_hides: "get_prop (without_password u) ''password'' = Inr None"
  by (simp add: without_password_def delete_conv')

lemma set_prop_this: "map_of (set_prop k v kvs) k = v"
  by (cases v) (simp_all add: delete_conv' update_conv')

lemma set_prop_other: "k' \<noteq> k \<Longrightarrow> map_of (set_prop k v kvs) k' = map_of kvs k'"
  by (cases v) (simp_all add: delete_conv' update_conv')


subsection \<open>The storage a route returns\<close>

lemma register_storage:
  "snd (register c req s) = s \<or> (\<exists>v. snd (register c req s) = snd (saveDb s (db_set (getDb s) ''users'' v)))"
  by (auto simp: register_def register_try_def Let_def split_beta split: sum.splits option.splits)

lemma login_storage: "snd (login req s) = s"
  by (auto simp: login_def login_try_def Let_def split: sum.splits option.splits)

lemma update_storage:
  "snd (update_user req s) = s \<or> (\<exists>v. snd (update_user req s) = snd (saveDb s (db_set (getDb s) ''users'' v)))"
  by (auto simp: update_user_def update_try_def Let_def split_beta split: sum.splits option.splits)

lemma get_user_storage: "snd (get_user uid s) = s"
  by (auto simp: get_user_def get_user_try_def Let_def split: sum.splits option.splits)

lemma list_sessions_storage: "snd (list_sessions uid s) = s"
  by (auto simp: list_sessions_def list_sessions_try_def Let_def split: sum.splits option.splits)

lemma upsert_storage:
  "snd (upsert_session req s) = s \<or> (\<exists>v. snd (upsert_session req s) = snd (saveDb s (db_set (getDb s) ''sessions'' v)))"
  by (auto simp: upsert_session_def upsert_try_def Let_def split_beta split: sum.splits option.splits)

lemma delete_storage:
  "snd (delete_session sid s) = s \<or> (\<exists>v. snd (delete_session sid s) = snd (saveDb s (db_set (getDb s) ''sessions'' v)))"
  by (auto simp: delete_session_def delete_try_def Let_def split_beta split: sum.splits option.splits)

subsection \<open>The fallback of \<^verbatim>\<open>getDb\<close>\<close>

text \<open>
  Claim C9. \<^verbatim>\<open>getDb\<close> never passes a failure on. When the file is absent, cannot be read
  or is not JSON, and whenever the body of its \<^verbatim>\<open>try\<close> throws, it answers with the empty
  document of two empty collections. When the file holds an object, a collection that is
  missing (or falsy) is set to the empty sequence and a collection that is there is kept.
  So when every collection the file holds is a sequence, the handler goes on with a document
  in which \<^verbatim>\<open>users\<close> and \<^verbatim>\<open>sessions\<close> are both sequences.
\<close>

theorem getDb_fallback:
  "(db_file s = Absent \<or> db_file s = ReadFails \<or> db_file s = Malformed \<longrightarrow> getDb s = empty_db) \<and>
   (\<forall>e. getDb_try s = Inl e \<longrightarrow> getDb s = empty_db) \<and>
   (\<forall>kvs. db_file s = Content (JObj kvs) \<longrightarrow>
      (\<forall>k\<in>{''users'', ''sessions''}.
         db_get (getDb s) k = (if truthy (map_of kvs k) then map_of kvs k else Some (JArr [])))) \<and>
   ((\<forall>kvs. db_file s = Content (JObj kvs) \<longrightarrow>
       (\<forall>k\<in>{''users'', ''sessions''}.
          \<not> truthy (map_of kvs k) \<or> (\<exists>xs. map_of kvs k = Some (JArr xs)))) \<longrightarrow>
    (\<exists>us ss. users_of s = Some (JArr us) \<and> sessions_of s = Some (JArr ss)))"
proof -
  have a: "db_file s = Absent \<or> db_file s = ReadFails \<or> db_file s = Malformed \<longrightarrow>
      getDb s = empty_db"
    by (auto simp: getDb_def)
  have b: "\<forall>e. getDb_try s = Inl e \<longrightarrow> getDb s = empty_db"
    by (simp add: getDb_def)
  have c: "db_get (getDb s) k = (if truthy (map_of kvs k) then map_of kvs k else Some (JArr []))"
    if "db_file s = Content (JObj kvs)" "k \<in> {''users'', ''sessions''}" for kvs k
    using that complete_obj [of kvs] by (auto simp: getDb_def)
  have d: "\<exists>us ss. users_of s = Some (JArr us) \<and> sessions_of s = Some (JArr ss)"
    if h: "\<forall>kvs. db_file s = Content (JObj kvs) \<longrightarrow>
       (\<forall>k\<in>{''users'', ''sessions''}.
          \<not> truthy (map_of kvs k) \<or> (\<exists>xs. map_of kvs k = Some (JArr xs)))"
  proof (cases "db_file s")
    case (Content v)
    show ?thesis
    proof (cases v)
      case (JObj kvs)
      with Content have f: "db_file s = Content (JObj kvs)" by simp
      from h f have "\<forall>k\<in>{''users'', ''sessions''}.
          \<not> truthy (map_of kvs k) \<or> (\<exists>xs. map_of kvs k = Some (JArr xs))"
        by blast
      then show ?thesis using c [OF f, of "''users''"] c [OF f, of "''sessions''"]
        by (auto simp: users_of_def sessions_of_def)
    qed (use Content in \<open>auto simp: getDb_def empty_db_def users_of_def sessions_of_def complete_arr\<close>)
  qed (auto simp: getDb_def empty_db_def users_of_def sessions_of_def)
  from a b c d show ?thesis by blast
qed

theorem getDb_fallback_witness:
  "let s = \<lparr>db_file = Content (JObj [(''users'', JArr [JObj [(''id'', JStr ''17'')]])]),
            writable = True\<rparr>;
       bad = \<lparr>db_file = Malformed, writable = True\<rparr>
   in users_of s = Some (JArr [JObj [(''id'', JStr ''17'')]]) \<and> sessions_of s = Some (JArr []) \<and>
      getDb bad = empty_db"
  using getDb_fallback [of "\<lparr>db_file = Content (JObj [(''users'', JArr [JObj [(''id'', JStr ''17'')]])]),
            writable = True\<rparr>"]
    getDb_fallback [of "\<lparr>db_file = Malformed, writable = True\<rparr>"]
  by (simp add: users_of_def sessions_of_def)

subsection \<open>Sessions\<close>

text \<open>
  Claim C3. The claim asks for a 500 from \<^verbatim>\<open>POST /api/sessions\<close> when the document cannot
  be written. \<^verbatim>\<open>saveDb\<close> catches the exception of the write and returns \<^verbatim>\<open>false\<close>, and
  the handler does not look at what \<^verbatim>\<open>saveDb\<close> returns, where \<^verbatim>\<open>register\<close> does: with a
  file that cannot be written the request is answered 200 with the record, and the file is
  as before.
\<close>

theorem upsert_ignores_write_failure:
  "let s = \<lparr>db_file = Content (JObj [(''users'', JArr []), (''sessions'', JArr [])]),
            writable = False\<rparr>;
       session = JObj [(''id'', JStr ''s1''), (''userId'', JStr ''17'')];
       user = JObj [(''phone'', JStr ''0912''), (''password'', JStr ''pass''), (''name'', JStr ''Ali'')]
   in upsert_session session s = (\<lparr>status = 200, body = session\<rparr>, s) \<and>
      status (fst (register \<lparr>now_ms = 1730000000123, today_fa = ''1404/8/13''\<rparr> user s)) = 500"
  by (simp add: upsert_session_def upsert_try_def register_def register_try_def getDb_def
      complete_def saveDb_def reply_def prop_is_def Let_def)






lemma delete_normal:
  assumes "sessions_of s = Some (JArr ss)" "JNull \<notin> set ss"
  shows "delete_session sid s =
    (if \<exists>x\<in>set ss. field_is ''id'' (Some (JStr sid)) x
     then (reply 200 (JObj [(''success'', JBool True)]),
           snd (saveDb s (db_set (getDb s) ''sessions''
                 (JArr (filter (\<lambda>x. \<not> field_is ''id'' (Some (JStr sid)) x) ss)))))
     else (reply 404 (error_body ''Session not found''), s))"
proof -
  have a: "as_array (db_get (getDb s) ''sessions'') = Inr ss"
    using assms(1) by (simp add: sessions_of_def)
  have f: "filter_js (prop_is_not ''id'' (Some (JStr sid))) ss
             = Inr (filter (\<lambda>x. \<not> field_is ''id'' (Some (JStr sid)) x) ss)"
    by (rule filter_js_not [OF assms(2)]) simp
  show ?thesis
    by (auto simp: delete_session_def delete_try_def a f Let_def split_beta length_filter_same)
qed

text \<open>
  Claim C8. Let the stored sessions be a sequence without \<^verbatim>\<open>null\<close>. When no stored
  session has the id, DeleteSession answers 404 and the storage is the one it found: nothing
  is written, so the collection has the same records. When some stored session has the id,
  it answers 200 with the success acknowledgment and, the file being writable, the sessions
  stored afterwards are the former ones without those of that id.
\<close>

theorem delete_session_cases:
  assumes "sessions_of s = Some (JArr ss)" and "JNull \<notin> set ss"
  shows "((\<forall>x\<in>set ss. \<not> field_is ''id'' (Some (JStr sid)) x) \<longrightarrow>
            delete_session sid s = (reply 404 (error_body ''Session not found''), s)) \<and>
         ((\<exists>x\<in>set ss. field_is ''id'' (Some (JStr sid)) x) \<longrightarrow>
            fst (delete_session sid s) = reply 200 (JObj [(''success'', JBool True)]) \<and>
            (writable s \<longrightarrow>
               sessions_of (snd (delete_session sid s))
                 = Some (JArr (filter (\<lambda>x. \<not> field_is ''id'' (Some (JStr sid)) x) ss))))"
proof -
  have "sessions_of (snd (delete_session sid s))
          = Some (JArr (filter (\<lambda>x. \<not> field_is ''id'' (Some (JStr sid)) x) ss))"
    if m: "\<exists>x\<in>set ss. field_is ''id'' (Some (JStr sid)) x" and w: "writable s"
  proof -
    have "ss \<noteq> []" using m by auto
    then have nb: "\<not> bare_array s" using bare_array_empty [of s] assms(1) by auto
    from save_this_key [OF w nb, of "''sessions''" "filter (\<lambda>x. \<not> field_is ''id'' (Some (JStr sid)) x) ss"] m
    show ?thesis
      by (auto simp: delete_normal [OF assms] sessions_of_def)
  qed
  then show ?thesis by (auto simp: delete_normal [OF assms])
qed

theorem delete_session_cases_witness:
  "let s = \<lparr>db_file = Content (JObj [(''users'', JArr []),
              (''sessions'', JArr [JObj [(''id'', JStr ''a'')], JObj [(''id'', JStr ''b'')]])]),
            writable = True\<rparr>
   in delete_session ''c'' s = (reply 404 (error_body ''Session not found''), s) \<and>
      fst (delete_session ''a'' s) = reply 200 (JObj [(''success'', JBool True)]) \<and>
      sessions_of (snd (delete_session ''a'' s)) = Some (JArr [JObj [(''id'', JStr ''b'')]])"
proof -
  let ?ss = "[JObj [(''id'', JStr ''a'')], JObj [(''id'', JStr ''b'')]]"
  let ?s = "\<lparr>db_file = Content (JObj [(''users'', JArr []), (''sessions'', JArr ?ss)]), writable = True\<rparr>"
  have a: "sessions_of ?s = Some (JArr ?ss)"
    by (simp add: sessions_of_def getDb_def complete_def)
  have n: "JNull \<notin> set ?ss" by simp
  show ?thesis
    using delete_session_cases [OF a n, of "''c''"] delete_session_cases [OF a n, of "''a''"]
    by (simp add: field_is_def Let_def)
qed

subsection \<open>Identities\<close>




lemma login_normal:
  assumes "users_of s = Some (JArr us)" "JNull \<notin> set us"
    and "get_prop req ''phone'' = Inr phone" "truthy phone" "primitive phone"
    and "get_prop req ''password'' = Inr password" "truthy password" "primitive password"
  shows "login req s =
    (case List.find (field_is ''phone'' phone) us of
       None \<Rightarrow> (reply 404 (error_body msg_account_not_found), s)
     | Some u \<Rightarrow>
         if field_is ''password'' password u
         then (reply 200 (without_password u), s)
         else (reply 401 (error_body msg_wrong_password), s))"
proof -
  have a: "as_array (db_get (getDb s) ''users'') = Inr us"
    using assms(1) by (simp add: users_of_def)
  have f: "find_js (prop_is ''phone'' phone) us = Inr (List.find (field_is ''phone'' phone) us)"
    by (rule find_js_fields [OF assms(2,5)])
  show ?thesis
  proof (cases "List.find (field_is ''phone'' phone) us")
    case None
    then show ?thesis
      using assms(3,4,6,7) by (simp add: login_def login_try_def a f Let_def)
  next
    case (Some u)
    then have u: "field_is ''phone'' phone u" "u \<in> set us" by (auto simp: find_Some_iff)
    then have "u \<noteq> JNull" using assms(2) by auto
    then obtain w where w: "get_prop u ''password'' = Inr w" "field_is ''password'' password u = (w = password)"
      using field_is_value [of u "''password''"] by blast
    have t: "truthy (Some u)" using u(1) assms(4) by (rule field_is_truthy)
    show ?thesis
      using assms(3,4,6,7) Some t w assms(8)
      by (simp add: login_def login_try_def a f Let_def strict_eq_prim)
  qed
qed

text \<open>
  Claim C6. Let the stored identities be a sequence without \<^verbatim>\<open>null\<close>, and let the request
  give a phone and a password. Login answers 404 exactly when no stored identity has the
  phone; it answers 401 exactly when the first stored identity with the phone has another
  password; otherwise it answers 200 with that identity without its password. In every case
  the storage is the one it found.
\<close>

theorem login_cases:
  assumes store: "users_of s = Some (JArr us)" "JNull \<notin> set us"
    and phone: "get_prop req ''phone'' = Inr phone" "truthy phone" "primitive phone"
    and password: "get_prop req ''password'' = Inr password" "truthy password" "primitive password"
  shows "let r = fst (login req s); found = List.find (field_is ''phone'' phone) us
         in snd (login req s) = s \<and>
            (status r = 404 \<longleftrightarrow> (\<forall>u\<in>set us. \<not> field_is ''phone'' phone u)) \<and>
            (status r = 401 \<longleftrightarrow> (\<exists>u. found = Some u \<and> \<not> field_is ''password'' password u)) \<and>
            (status r \<noteq> 404 \<and> status r \<noteq> 401 \<longrightarrow>
               (\<exists>u. found = Some u \<and> field_is ''password'' password u \<and>
                    r = reply 200 (without_password u) \<and>
                    get_prop (body r) ''password'' = Inr None))"
proof (cases "List.find (field_is ''phone'' phone) us")
  case None
  then have "\<forall>u\<in>set us. \<not> field_is ''phone'' phone u" by (simp add: find_None_iff)
  with None show ?thesis
    by (simp add: login_normal [OF assms] reply_def)
next
  case (Some u)
  then have "\<exists>u\<in>set us. field_is ''phone'' phone u" by (auto simp: find_Some_iff)
  with Some show ?thesis
    using without_password_hides [of u]
    by (simp add: login_normal [OF assms] reply_def)
qed

theorem login_cases_witness:
  "let s = \<lparr>db_file = Content (JObj [(''users'', JArr [JObj [(''id'', JStr ''17''),
               (''phone'', JStr ''0912''), (''password'', JStr ''pass''), (''name'', JStr ''Ali'')]]),
               (''sessions'', JArr [])]), writable = True\<rparr>;
       login_with = (\<lambda>ph pw. fst (login (JObj [(''phone'', JStr ph), (''password'', JStr pw)]) s))
   in status (login_with ''0912'' ''wrong'') = 401 \<and>
      status (login_with ''0935'' ''pass'') = 404 \<and>
      login_with ''0912'' ''pass''
        = reply 200 (JObj [(''id'', JStr ''17''), (''phone'', JStr ''0912''), (''name'', JStr ''Ali'')])"
proof -
  let ?u = "JObj [(''id'', JStr ''17''), (''phone'', JStr ''0912''), (''password'', JStr ''pass''),
                  (''name'', JStr ''Ali'')]"
  let ?s = "\<lparr>db_file = Content (JObj [(''users'', JArr [?u]), (''sessions'', JArr [])]), writable = True\<rparr>"
  have store: "users_of ?s = Some (JArr [?u])" "JNull \<notin> set [?u]"
    by (simp_all add: users_of_def getDb_def complete_def)
  have given: "get_prop (JObj [(''phone'', JStr ph), (''password'', JStr pw)]) ''phone'' = Inr (Some (JStr ph))"
    "get_prop (JObj [(''phone'', JStr ph), (''password'', JStr pw)]) ''password'' = Inr (Some (JStr pw))"
    "primitive (Some (JStr ph))" "primitive (Some (JStr pw))" for ph pw
    by simp_all
  have t: "truthy (Some (JStr ''0912''))" "truthy (Some (JStr ''0935''))"
    "truthy (Some (JStr ''pass''))" "truthy (Some (JStr ''wrong''))" by simp_all
  show ?thesis
    using login_cases [OF store given(1) t(1) given(3) given(2) t(4) given(4)]
      login_cases [OF store given(1) t(2) given(3) given(2) t(3) given(4)]
      login_cases [OF store given(1) t(1) given(3) given(2) t(3) given(4)]
    by (simp add: Let_def field_is_def without_password_def reply_def)
qed

text \<open>
  Claim C4. Let the request carry an id for which the search through the stored identities
  finds one, at index \<open>i\<close>. UpdateIdentity answers 200 with the request as it came. The
  identity stored at \<open>i\<close> afterwards has the password that was stored there before, whatever
  password the request carries, the other identities are as before, and, the file being
  writable, every other field of the identity at \<open>i\<close> is the one of the request.
\<close>

theorem update_keeps_password:
  assumes store: "users_of s = Some (JArr us)"
    and req: "get_prop req ''id'' = Inr uid" "truthy uid"
    and found: "findIndex_js (prop_is ''id'' uid) us = Inr (Some i)"
  shows "fst (update_user req s) = reply 200 req \<and>
         (\<exists>us'. users_of (snd (update_user req s)) = Some (JArr us') \<and>
            length us' = length us \<and>
            get_prop (us' ! i) ''password'' = get_prop (us ! i) ''password'' \<and>
            (\<forall>j<length us. j \<noteq> i \<longrightarrow> us' ! j = us ! j) \<and>
            (writable s \<longrightarrow> (\<forall>k. k \<noteq> ''password'' \<longrightarrow> get_prop (us' ! i) k = get_prop req k)))"
proof -
  have a: "as_array (db_get (getDb s) ''users'') = Inr us"
    using store by (simp add: users_of_def)
  from findIndex_js_Some [OF found] have i: "i < length us" and m: "prop_is ''id'' uid (us ! i) = Inr True"
    by simp_all
  from prop_is_truthy_obj [OF m req(2)] obtain kvs where kvs: "us ! i = JObj kvs" by blast
  from get_prop_truthy_obj [OF req] obtain rkvs where rkvs: "req = JObj rkvs" by blast
  let ?merged = "JObj (set_prop ''password'' (map_of kvs ''password'') rkvs)"
  let ?s' = "snd (saveDb s (db_set (getDb s) ''users'' (JArr (us[i := ?merged]))))"
  have r: "update_user req s = (reply 200 req, ?s')"
    using req by (simp add: update_user_def update_try_def a found kvs rkvs Let_def split_beta)
  show ?thesis
  proof (cases "writable s")
    case False
    then have "?s' = s" by (simp add: saveDb_def)
    with store False i show ?thesis by (simp add: r)
  next
    case True
    have "us \<noteq> []" using i by auto
    then have nb: "\<not> bare_array s" using bare_array_empty [of s] store by auto
    have u': "users_of ?s' = Some (JArr (us[i := ?merged]))"
      using save_ok(1) [OF True nb, of "''users''" "us[i := ?merged]"] by (simp add: users_of_def)
    show ?thesis
      using i by (simp add: r [unfolded rkvs] u' kvs rkvs set_prop_this set_prop_other)
  qed
qed

theorem update_keeps_password_witness:
  "let s = \<lparr>db_file = Content (JObj [(''users'', JArr [JObj [(''id'', JStr ''17''),
               (''phone'', JStr ''0912''), (''password'', JStr ''pass''), (''name'', JStr ''Ali'')]]),
               (''sessions'', JArr [])]), writable = True\<rparr>;
       req = JObj [(''id'', JStr ''17''), (''name'', JStr ''Reza''), (''password'', JStr ''other'')]
   in fst (update_user req s) = reply 200 req \<and>
      (\<exists>us'. users_of (snd (update_user req s)) = Some (JArr us') \<and> length us' = 1 \<and>
             get_prop (us' ! 0) ''password'' = Inr (Some (JStr ''pass'')) \<and>
             get_prop (us' ! 0) ''name'' = Inr (Some (JStr ''Reza'')) \<and>
             get_prop (us' ! 0) ''phone'' = Inr None)"
proof -
  let ?u = "JObj [(''id'', JStr ''17''), (''phone'', JStr ''0912''), (''password'', JStr ''pass''),
                  (''name'', JStr ''Ali'')]"
  let ?s = "\<lparr>db_file = Content (JObj [(''users'', JArr [?u]), (''sessions'', JArr [])]), writable = True\<rparr>"
  let ?req = "JObj [(''id'', JStr ''17''), (''name'', JStr ''Reza''), (''password'', JStr ''other'')]"
  have store: "users_of ?s = Some (JArr [?u])"
    by (simp add: users_of_def getDb_def complete_def)
  have req: "get_prop ?req ''id'' = Inr (Some (JStr ''17''))" "truthy (Some (JStr ''17''))"
    by simp_all
  have found: "findIndex_js (prop_is ''id'' (Some (JStr ''17''))) [?u] = Inr (Some 0)"
    by (simp add: prop_is_def)
  from update_keeps_password [OF store req found] obtain us' where
    a: "fst (update_user ?req ?s) = reply 200 ?req"
      "users_of (snd (update_user ?req ?s)) = Some (JArr us')" "length us' = length [?u]"
      "get_prop (us' ! 0) ''password'' = get_prop ([?u] ! 0) ''password''" and
    b: "writable ?s \<longrightarrow> (\<forall>k. k \<noteq> ''password'' \<longrightarrow> get_prop (us' ! 0) k = get_prop ?req k)"
    by blast
  from b have "get_prop (us' ! 0) ''name'' = get_prop ?req ''name''"
    "get_prop (us' ! 0) ''phone'' = get_prop ?req ''phone''" by simp_all
  with a show ?thesis by (simp add: Let_def)
qed

subsection \<open>The two collections\<close>

text \<open>
  Claim C10. Register and UpdateIdentity leave the sessions collection as it was, Login and
  GetIdentity leave the whole storage as it was, and UpsertSession and DeleteSession leave
  the identities collection as it was; each collection is taken as the next handler reads
  it. This holds for every request and every state of the file, written or not.
\<close>

theorem collections_framed:
  "sessions_of (snd (register c req s)) = sessions_of s \<and>
   snd (login req s) = s \<and>
   sessions_of (snd (update_user req s)) = sessions_of s \<and>
   snd (get_user uid s) = s \<and>
   users_of (snd (upsert_session req s)) = users_of s \<and>
   users_of (snd (delete_session sid s)) = users_of s"
  using register_storage [of c req s] update_storage [of req s] upsert_storage [of req s]
    delete_storage [of sid s]
  by (auto simp: login_storage get_user_storage users_save_keeps_sessions sessions_save_keeps_users)

subsection \<open>What holds of every storage the server produces\<close>

lemma strict_eq_same: "strict_eq w v \<Longrightarrow> w = v \<and> primitive v"
  by (induction w v rule: strict_eq.induct) auto

lemma findIndex_js_None: "findIndex_js p xs = Inr None \<Longrightarrow> \<forall>x\<in>set xs. p x = Inr False"
  by (induction xs) (auto split: sum.splits bool.splits option.splits)

lemma getDb_writable: "getDb (s\<lparr>writable := w\<rparr>) = getDb s"
  by (simp add: getDb_def)

lemma sound_disk: "sound s \<Longrightarrow> sound (s\<lparr>writable := w\<rparr>)"
  by (simp add: sound_def bare_array_def users_of_def sessions_of_def getDb_writable)

lemma sound_save_users:
  assumes "sound s" "JNull \<notin> set us'"
  shows "sound (snd (saveDb s (db_set (getDb s) ''users'' (JArr us'))))"
proof (cases "writable s")
  case False
  with assms(1) show ?thesis by (simp add: saveDb_def)
next
  case True
  from assms(1) have nb: "\<not> bare_array s" by (simp add: sound_def)
  show ?thesis
    using assms save_ok [OF True nb, of "''users''" us'] users_save_keeps_sessions [of s "JArr us'"]
    by (auto simp: sound_def users_of_def)
qed

lemma sound_save_sessions:
  assumes "sound s" "JNull \<notin> set ss'"
    "\<forall>v. primitive v \<longrightarrow> length (filter (field_is ''id'' v) ss') \<le> 1"
  shows "sound (snd (saveDb s (db_set (getDb s) ''sessions'' (JArr ss'))))"
proof (cases "writable s")
  case False
  with assms(1) show ?thesis by (simp add: saveDb_def)
next
  case True
  from assms(1) have nb: "\<not> bare_array s" by (simp add: sound_def)
  show ?thesis
    using assms save_ok [OF True nb, of "''sessions''" ss'] sessions_save_keeps_users [of s "JArr ss'"]
    by (auto simp: sound_def sessions_of_def)
qed

lemma sound_register: assumes "sound s" shows "sound (snd (register c req s))"
proof -
  from assms obtain us where us: "users_of s = Some (JArr us)" "JNull \<notin> set us"
    by (auto simp: sound_def)
  have a: "as_array (db_get (getDb s) ''users'') = Inr us"
    using us(1) by (simp add: users_of_def)
  have "snd (register c req s) = s \<or>
        (\<exists>nu. snd (register c req s) = snd (saveDb s (db_set (getDb s) ''users'' (JArr (us @ [JObj nu])))))"
    by (auto simp: register_def register_try_def a Let_def split_beta split: sum.splits option.splits)
  then show ?thesis
    using assms us(2) sound_save_users [OF assms, of "us @ [JObj nu]" for nu] by auto
qed

lemma sound_update: assumes "sound s" shows "sound (snd (update_user req s))"
proof -
  from assms obtain us where us: "users_of s = Some (JArr us)" "JNull \<notin> set us"
    by (auto simp: sound_def)
  have a: "as_array (db_get (getDb s) ''users'') = Inr us"
    using us(1) by (simp add: users_of_def)
  have "snd (update_user req s) = s \<or>
        (\<exists>i m. snd (update_user req s) = snd (saveDb s (db_set (getDb s) ''users'' (JArr (us[i := JObj m])))))"
    by (auto simp: update_user_def update_try_def a Let_def split_beta split: sum.splits option.splits)
  moreover have "JNull \<notin> set (us[i := JObj m])" for i m
    using us(2) by (auto dest: set_update_subset_insert [THEN subsetD])
  ultimately show ?thesis
    using assms sound_save_users [OF assms, of "us[i := JObj m]" for i m] by auto
qed

lemma filter_update_same:
  assumes "i < length xs" "P y = P (xs ! i)"
  shows "length (filter P (xs[i := y])) = length (filter P xs)"
  using assms
proof (induction xs arbitrary: i)
  case Nil
  then show ?case by simp
next
  case (Cons x xs)
  then show ?case by (cases i) auto
qed

lemma sound_upsert: assumes "sound s" "req \<noteq> JNull" shows "sound (snd (upsert_session req s))"
proof -
  from assms(1) obtain ss where ss: "sessions_of s = Some (JArr ss)" "JNull \<notin> set ss"
    and once: "\<forall>v. primitive v \<longrightarrow> length (filter (field_is ''id'' v) ss) \<le> 1"
    by (auto simp: sound_def)
  have a: "as_array (db_get (getDb s) ''sessions'') = Inr ss"
    using ss(1) by (simp add: sessions_of_def)
  from assms(2) obtain rid where rid: "get_prop req ''id'' = Inr rid"
    by (cases req) auto
  have same: "same_id req x = Inr (strict_eq w rid)" if "get_prop x ''id'' = Inr w" for x w
    using that rid by (simp add: same_id_def)
  have res: "snd (upsert_session req s) =
      (case findIndex_js (same_id req) ss of
         Inl e \<Rightarrow> s
       | Inr None \<Rightarrow> snd (saveDb s (db_set (getDb s) ''sessions'' (JArr (ss @ [req]))))
       | Inr (Some i) \<Rightarrow> snd (saveDb s (db_set (getDb s) ''sessions'' (JArr (ss[i := req])))))"
    by (simp add: upsert_session_def upsert_try_def a Let_def split_beta
        split: sum.splits option.splits)
  consider (err) e where "findIndex_js (same_id req) ss = Inl e"
    | (replace) i where "findIndex_js (same_id req) ss = Inr (Some i)"
    | (append) "findIndex_js (same_id req) ss = Inr None"
    by (cases "findIndex_js (same_id req) ss") auto
  then show ?thesis
  proof cases
    case err
    with assms(1) show ?thesis by (simp add: res)
  next
    case (replace i)
    from findIndex_js_Some [OF replace] have i: "i < length ss" and m: "same_id req (ss ! i) = Inr True"
      by simp_all
    have "ss ! i \<noteq> JNull" using i ss(2) by (metis nth_mem)
    then obtain w where w: "get_prop (ss ! i) ''id'' = Inr w" by (cases "ss ! i") auto
    from m same [OF w] have "strict_eq w rid" by simp
    then have "w = rid" by (simp add: strict_eq_same)
    then have eq: "field_is ''id'' v req = field_is ''id'' v (ss ! i)" for v
      using w rid by (simp add: field_is_def)
    have n: "JNull \<notin> set (ss[i := req])"
      using ss(2) assms(2) by (auto dest: set_update_subset_insert [THEN subsetD])
    have o: "\<forall>v. primitive v \<longrightarrow> length (filter (field_is ''id'' v) (ss[i := req])) \<le> 1"
      using once by (simp add: filter_update_same [OF i eq])
    show ?thesis
      using sound_save_sessions [OF assms(1) n o] by (simp add: res replace)
  next
    case append
    have none: "\<not> field_is ''id'' rid x" if "x \<in> set ss" "primitive rid" for x
    proof -
      have "x \<noteq> JNull" using that(1) ss(2) by auto
      then obtain w where w: "get_prop x ''id'' = Inr w" by (cases x) auto
      from findIndex_js_None [OF append] that(1) have "same_id req x = Inr False" by simp
      with same [OF w] have "\<not> strict_eq w rid" by simp
      with that(2) have "w \<noteq> rid" by (simp add: strict_eq_prim)
      with w show ?thesis by (simp add: field_is_def)
    qed
    have n: "JNull \<notin> set (ss @ [req])" using ss(2) assms(2) by simp
    have o: "\<forall>v. primitive v \<longrightarrow> length (filter (field_is ''id'' v) (ss @ [req])) \<le> 1"
    proof (intro allI impI)
      fix v assume p: "primitive v"
      show "length (filter (field_is ''id'' v) (ss @ [req])) \<le> 1"
      proof (cases "field_is ''id'' v req")
        case True
        then have "v = rid" using rid by (simp add: field_is_def)
        with p none have "filter (field_is ''id'' v) ss = []" by (simp add: filter_empty_conv)
        then show ?thesis by simp
      next
        case False
        with once p show ?thesis by simp
      qed
    qed
    show ?thesis
      using sound_save_sessions [OF assms(1) n o] by (simp add: res append)
  qed
qed

lemma sound_delete: assumes "sound s" shows "sound (snd (delete_session sid s))"
proof -
  from assms obtain ss where ss: "sessions_of s = Some (JArr ss)" "JNull \<notin> set ss"
    and once: "\<forall>v. primitive v \<longrightarrow> length (filter (field_is ''id'' v) ss) \<le> 1"
    by (auto simp: sound_def)
  let ?kept = "filter (\<lambda>x. \<not> field_is ''id'' (Some (JStr sid)) x) ss"
  have n: "JNull \<notin> set ?kept" using ss(2) by simp
  have o: "\<forall>v. primitive v \<longrightarrow> length (filter (field_is ''id'' v) ?kept) \<le> 1"
  proof (intro allI impI)
    fix v assume p: "primitive v"
    have "filter (field_is ''id'' v) ?kept = filter (\<lambda>x. \<not> field_is ''id'' (Some (JStr sid)) x) (filter (field_is ''id'' v) ss)"
      by (simp add: conj_commute)
    then have "length (filter (field_is ''id'' v) ?kept) \<le> length (filter (field_is ''id'' v) ss)"
      by (simp only: length_filter_le)
    with once p show "length (filter (field_is ''id'' v) ?kept) \<le> 1" by (meson le_trans)
  qed
  show ?thesis
    using assms sound_save_sessions [OF assms n o]
    by (simp add: delete_normal [OF ss])
qed

lemma sound_fresh: "sound fresh_storage"
  by (simp add: sound_def fresh_storage_def bare_array_def users_of_def sessions_of_def getDb_def
      complete_def)

lemma served_sound: "served s \<Longrightarrow> sound s"
  by (induction rule: served.induct)
    (simp_all add: sound_fresh sound_disk sound_register sound_update sound_upsert sound_delete)

section \<open>Properties of the audio bridge\<close>

lemma tool_reaction_keeps [simp]:
  "isSpeaking (tool_reaction msg b) = isSpeaking b"
  "outputAudioContext (tool_reaction msg b) = outputAudioContext b"
  "sessionPromise (tool_reaction msg b) = sessionPromise b"
  "nextStartTime (tool_reaction msg b) = nextStartTime b"
  "sources (tool_reaction msg b) = sources b"
  "nodes (tool_reaction msg b) = nodes b"
  "stopped (tool_reaction msg b) = stopped b"
  by (simp_all add: tool_reaction_def split: option.splits)

lemma audio_reaction_chunk:
  assumes "outputAudioContext b" "audio msg = Some a" "a \<noteq> []"
  shows "audio_reaction duration_of now msg b =
           (b\<lparr>isSpeaking := True,
              nextStartTime := max (nextStartTime b) now + duration_of a,
              nodes := nodes b @ [(max (nextStartTime b) now, duration_of a)],
              sources := insert (length (nodes b)) (sources b)\<rparr>, True)"
  using assms by (simp add: audio_reaction_def schedule_chunk_def Let_def)

lemma onmessage_chunk:
  assumes "outputAudioContext b" "audio msg = Some a" "a \<noteq> []" "\<not> interrupted msg"
  shows "onmessage duration_of now msg b =
           (tool_reaction msg b)\<lparr>isSpeaking := True,
              nextStartTime := max (nextStartTime b) now + duration_of a,
              nodes := nodes b @ [(max (nextStartTime b) now, duration_of a)],
              sources := insert (length (nodes b)) (sources b)\<rparr>"
  using assms audio_reaction_chunk [of "tool_reaction msg b" msg a duration_of now]
  by (simp add: onmessage_def interruption_reaction_def)

lemma ended_speaking: "isSpeaking (ended u c) = (isSpeaking c \<and> sources c - {u} \<noteq> {})"
  by (simp add: ended_def Let_def)

lemma ended_sources: "sources (ended u c) = sources c - {u}"
  by (simp add: ended_def Let_def)

lemma session_has_output: "reachable b \<Longrightarrow> sessionPromise b \<Longrightarrow> outputAudioContext b"
proof (induction rule: reachable.induct)
  case (after_connect b outcome)
  then show ?case by (cases outcome) auto
next
  case (after_onmessage b duration_of now msg)
  then show ?case
    by (auto simp: onmessage_def audio_reaction_def schedule_chunk_def interruption_reaction_def
      Let_def split: option.splits)
qed (auto simp: initial_bridge_def disconnect_def onopen_def onclose_def onerror_def ended_def Let_def split: if_splits)

lemma sources_known: "reachable b \<Longrightarrow> \<forall>u\<in>sources b. u < length (nodes b)"
proof (induction rule: reachable.induct)
  case (after_connect b outcome)
  then show ?case by (cases outcome) auto
next
  case (after_onmessage b duration_of now msg)
  then show ?case
    by (auto simp: onmessage_def audio_reaction_def schedule_chunk_def interruption_reaction_def
      Let_def less_Suc_eq split: option.splits)
qed (auto simp: initial_bridge_def disconnect_def onopen_def onclose_def onerror_def ended_def Let_def split: if_splits)


text \<open>
  Claim C1. A message that carries an audio payload, met while the output context exists,
  becomes one new node: it is started at the larger of the cursor \<open>nextStartTime\<close> and the
  clock of the output context, the cursor moves on by the duration of the node, the node
  joins \<open>sources\<close>, and \<open>isSpeaking\<close> is set. When two such messages follow each other and the
  second arrives no later than the first node ends, the second node starts at the start of
  the first plus the duration of the first. \<open>isSpeaking\<close> stays set when the first node
  ends, and the \<^verbatim>\<open>ended\<close> listener clears it exactly when it leaves \<open>sources\<close> empty.
\<close>

theorem audio_chunk_scheduling:
  fixes b c :: "('t::{linorder,plus,zero}) bridge"
  assumes ctx: "outputAudioContext b"
    and known: "\<forall>u\<in>sources b. u < length (nodes b)"
    and m1: "audio m1 = Some a1" "a1 \<noteq> []"
    and m2: "audio m2 = Some a2" "a2 \<noteq> []"
  shows
    "let start1 = max (nextStartTime b) t1; d1 = duration_of a1; u1 = length (nodes b);
         r = fst (audio_reaction duration_of t1 m1 b);
         b1 = onmessage duration_of t1 m1 b; b2 = onmessage duration_of t2 m2 b1
     in (nodes r = nodes b @ [(start1, d1)] \<and> nextStartTime r = start1 + d1 \<and>
         u1 \<notin> sources b \<and> sources r = insert u1 (sources b) \<and> isSpeaking r) \<and>
        (\<not> interrupted m1 \<and> \<not> interrupted m2 \<and> t2 \<le> start1 + d1 \<longrightarrow>
           nodes b2 = nodes b @ [(start1, d1), (start1 + d1, duration_of a2)] \<and>
           nextStartTime b2 = start1 + d1 + duration_of a2 \<and>
           sources b2 = insert (Suc u1) (insert u1 (sources b)) \<and> isSpeaking b2 \<and>
           isSpeaking (ended u1 b2) \<and>
           (isSpeaking (ended (Suc u1) (ended u1 b2)) \<longleftrightarrow> sources b \<noteq> {})) \<and>
        (isSpeaking (ended u c) \<longleftrightarrow> isSpeaking c \<and> sources c - {u} \<noteq> {})"
proof -
  let ?start1 = "max (nextStartTime b) t1" and ?d1 = "duration_of a1" and ?u1 = "length (nodes b)"
  let ?r = "fst (audio_reaction duration_of t1 m1 b)"
  let ?b1 = "onmessage duration_of t1 m1 b"
  let ?b2 = "onmessage duration_of t2 m2 ?b1"
  have fresh: "?u1 \<notin> sources b" using known by auto
  have part1: "nodes ?r = nodes b @ [(?start1, ?d1)] \<and> nextStartTime ?r = ?start1 + ?d1 \<and>
      ?u1 \<notin> sources b \<and> sources ?r = insert ?u1 (sources b) \<and> isSpeaking ?r"
    using fresh by (simp add: audio_reaction_chunk [OF ctx m1])
  have part2: "nodes ?b2 = nodes b @ [(?start1, ?d1), (?start1 + ?d1, duration_of a2)] \<and>
           nextStartTime ?b2 = ?start1 + ?d1 + duration_of a2 \<and>
           sources ?b2 = insert (Suc ?u1) (insert ?u1 (sources b)) \<and> isSpeaking ?b2 \<and>
           isSpeaking (ended ?u1 ?b2) \<and>
           (isSpeaking (ended (Suc ?u1) (ended ?u1 ?b2)) \<longleftrightarrow> sources b \<noteq> {})"
    if ni: "\<not> interrupted m1" "\<not> interrupted m2" and le: "t2 \<le> ?start1 + ?d1"
  proof -
    have b1: "?b1 = (tool_reaction m1 b)\<lparr>isSpeaking := True,
              nextStartTime := ?start1 + ?d1,
              nodes := nodes b @ [(?start1, ?d1)],
              sources := insert ?u1 (sources b)\<rparr>"
      by (rule onmessage_chunk [OF ctx m1 ni(1)])
    have ctx1: "outputAudioContext ?b1" using ctx by (simp add: b1)
    have mx: "max (nextStartTime ?b1) t2 = ?start1 + ?d1"
      using le by (simp add: b1 max_absorb1)
    have b2: "?b2 = (tool_reaction m2 ?b1)\<lparr>isSpeaking := True,
              nextStartTime := ?start1 + ?d1 + duration_of a2,
              nodes := nodes ?b1 @ [(?start1 + ?d1, duration_of a2)],
              sources := insert (length (nodes ?b1)) (sources ?b1)\<rparr>"
      using onmessage_chunk [OF ctx1 m2 ni(2), of duration_of t2] by (simp only: mx)
    have n1: "nodes ?b1 = nodes b @ [(?start1, ?d1)]" and s1: "sources ?b1 = insert ?u1 (sources b)"
      by (simp_all add: b1)
    have nodes2: "nodes ?b2 = nodes b @ [(?start1, ?d1), (?start1 + ?d1, duration_of a2)]"
      by (subst b2) (simp add: n1)
    have src2: "sources ?b2 = insert (Suc ?u1) (insert ?u1 (sources b))"
      by (subst b2) (simp add: n1 s1)
    have sp2: "isSpeaking ?b2" by (subst b2) simp
    have nx2: "nextStartTime ?b2 = ?start1 + ?d1 + duration_of a2" by (subst b2) simp
    have e1: "isSpeaking (ended ?u1 ?b2)"
      by (simp add: ended_speaking sp2 src2)
    have "sources (ended ?u1 ?b2) - {Suc ?u1} = sources b"
      using known by (auto simp: ended_sources src2)
    then have e2: "isSpeaking (ended (Suc ?u1) (ended ?u1 ?b2)) \<longleftrightarrow> sources b \<noteq> {}"
      using e1 by (simp add: ended_speaking)
    show ?thesis using nodes2 nx2 src2 sp2 e1 e2 by blast
  qed
  show ?thesis
    unfolding Let_def using part1 part2 ended_speaking by blast
qed

theorem audio_chunk_scheduling_witness:
  "let b = connect SessionRequested (initial_bridge :: real bridge);
       m = \<lparr>toolCall = None, audio = Some ''UklGRg'', interrupted = False\<rparr>;
       dur = (\<lambda>a. 1 / 2);
       b2 = onmessage dur (16 / 5) m (onmessage dur 3 m b)
   in outputAudioContext b \<and> sources b = {} \<and>
      nodes (fst (audio_reaction dur 3 m b)) = [(3, 1 / 2)] \<and>
      nextStartTime (fst (audio_reaction dur 3 m b)) = 7 / 2 \<and>
      nodes b2 = [(3, 1 / 2), (7 / 2, 1 / 2)] \<and> nextStartTime b2 = 4 \<and>
      sources b2 = {0, 1} \<and> isSpeaking b2 \<and> isSpeaking (ended 0 b2) \<and>
      \<not> isSpeaking (ended 1 (ended 0 b2))"
proof -
  let ?b = "connect SessionRequested (initial_bridge :: real bridge)"
  let ?m = "\<lparr>toolCall = None, audio = Some ''UklGRg'', interrupted = False\<rparr>"
  have ctx: "outputAudioContext ?b" by simp
  have known: "\<forall>u\<in>sources ?b. u < length (nodes ?b)" by (simp add: initial_bridge_def)
  have a: "audio ?m = Some ''UklGRg''" "''UklGRg'' \<noteq> []" by simp_all
  show ?thesis
    using audio_chunk_scheduling [OF ctx known a a, where ?t1.0 = 3 and ?t2.0 = "16 / 5"
        and duration_of = "\<lambda>a. 1 / 2" and u = 0 and c = ?b]
    by (simp add: initial_bridge_def Let_def insert_commute)
qed

text \<open>
  Claim C2. Whatever nodes are playing and wherever the cursor stands, a message with the
  interruption flag leaves \<open>sources\<close> empty, the cursor at zero and \<open>isSpeaking\<close> cleared, and
  \<^verbatim>\<open>stop\<close> has been called on every node that was playing and on the node the same message
  may have started. The result is that of the handler alone: no \<^verbatim>\<open>ended\<close> event is
  needed. The handler gets to the interruption part unless the message also carries audio
  and there is no output context; by \<open>session_has_output\<close> a message never meets a state
  without the output context.
\<close>

theorem interruption_clears:
  fixes b :: "('t::{linorder,plus,zero}) bridge"
  assumes "interrupted msg"
    and "outputAudioContext b \<or> audio msg = None \<or> audio msg = Some []"
  shows "let b' = onmessage duration_of now msg b
         in sources b' = {} \<and> nextStartTime b' = 0 \<and> \<not> isSpeaking b' \<and>
            sources b \<subseteq> stopped b' \<and> {length (nodes b)..<length (nodes b')} \<subseteq> stopped b'"
  using assms
  by (auto simp: onmessage_def audio_reaction_def schedule_chunk_def interruption_reaction_def
      Let_def split: option.splits)

theorem interruption_clears_witness:
  "let b = \<lparr>isConnected = True, isSpeaking = True, error = None, outputAudioContext = True,
            sessionPromise = True, nextStartTime = (4 :: real), sources = {0, 1},
            nodes = [(3, 1 / 2), (7 / 2, 1 / 2)], stopped = {}, toolResponses = []\<rparr>;
       flag = \<lparr>toolCall = None, audio = None, interrupted = True\<rparr>;
       both = \<lparr>toolCall = None, audio = Some ''UklGRg'', interrupted = True\<rparr>;
       b1 = onmessage (\<lambda>a. 1 / 2) (16 / 5) flag b;
       b2 = onmessage (\<lambda>a. 1 / 2) (16 / 5) both b
   in sources b1 = {} \<and> nextStartTime b1 = 0 \<and> \<not> isSpeaking b1 \<and> {0, 1} \<subseteq> stopped b1 \<and>
      sources b2 = {} \<and> nextStartTime b2 = 0 \<and> \<not> isSpeaking b2 \<and> {0, 1} \<subseteq> stopped b2"
proof -
  let ?b = "\<lparr>isConnected = True, isSpeaking = True, error = None, outputAudioContext = True,
            sessionPromise = True, nextStartTime = (4 :: real), sources = {0, 1},
            nodes = [(3, 1 / 2), (7 / 2, 1 / 2)], stopped = {}, toolResponses = []\<rparr>"
  let ?flag = "\<lparr>toolCall = None, audio = None, interrupted = True\<rparr>"
  let ?both = "\<lparr>toolCall = None, audio = Some ''UklGRg'', interrupted = True\<rparr>"
  have i: "interrupted ?flag" "interrupted ?both" by simp_all
  have ctx: "outputAudioContext ?b \<or> audio m = None \<or> audio m = Some []" for m :: message
    by simp
  show ?thesis
    using interruption_clears [OF i(1) ctx, of "\<lambda>a. 1 / 2" "16 / 5"]
      interruption_clears [OF i(2) ctx, of "\<lambda>a. 1 / 2" "16 / 5"]
    by (simp add: Let_def)
qed

end
